theory Spec2Isabelle
  imports Complex_Main
begin

section \<open>Erlang traffic formulas: a shallow embedding of Erlang.py\<close>

text \<open>
  The class \<^verbatim>\<open>Erlang\<close> of \<^verbatim>\<open>Erlang.py\<close> is a collection of static methods over
  Python numbers. The embedding reads a Python \<^verbatim>\<open>float\<close> as a real number and an
  \<^verbatim>\<open>int\<close> as an integer: the arithmetic operators are exact, rounding of binary
  floating point is not modelled. The two loops that compute Erlang B are embedded a
  second time, with the suffix \<open>_float\<close>, over floats whose sums, products and
  quotients go to infinity when they leave the range of a double, as those of the
  interpreter do. What the interpreter does besides computing a number is written out:
  \<^item> \<^verbatim>\<open>raise ValueError\<close>, a division by zero and an \<^verbatim>\<open>OverflowError\<close> are values
    of the type \<open>error\<close>, and every function returns \<open>error + result\<close>;
  \<^item> the two library calls that raise \<^verbatim>\<open>OverflowError\<close> (\<^verbatim>\<open>math.pow\<close>,
    \<^verbatim>\<open>math.exp\<close>) and the conversion of a big \<^verbatim>\<open>int\<close> to \<^verbatim>\<open>float\<close> raise it
    when the exact result reaches the bound above which a double rounds to infinity;
  \<^item> \<^verbatim>\<open>float('inf')\<close>, which two functions return, is a value of its own.
\<close>

subsection \<open>Python values and errors\<close>

datatype error = ValueError | ZeroDivisionError | OverflowError

text \<open>A float result: a finite number, or one of the three special values.\<close>

datatype pyfloat = Fin real | PInf | NInf | NaN

text \<open>Sequencing of computations that may raise.\<close>

definition then_do :: "error + 'a \<Rightarrow> ('a \<Rightarrow> error + 'b) \<Rightarrow> error + 'b" where
  "then_do m f = (case m of Inl e \<Rightarrow> Inl e | Inr x \<Rightarrow> f x)"

text \<open>The operator \<^verbatim>\<open>/\<close>: true division, which raises on a zero divisor.\<close>

definition py_div :: "real \<Rightarrow> real \<Rightarrow> error + real" where
  "py_div a b = (if b = 0 then Inl ZeroDivisionError else Inr (a / b))"

text \<open>
  \<^verbatim>\<open>round(x, n)\<close>: the nearest multiple of \<^verbatim>\<open>10**(-n)\<close>, a tie going to the even
  neighbour.
\<close>

definition round_half_even :: "real \<Rightarrow> int" where
  "round_half_even x =
     (let f = \<lfloor>x\<rfloor>; d = x - of_int f
      in if d < 1 / 2 then f
         else if 1 / 2 < d then f + 1
         else if even f then f else f + 1)"

definition py_round :: "real \<Rightarrow> nat \<Rightarrow> real" where
  "py_round x n = of_int (round_half_even (x * 10 ^ n)) / 10 ^ n"

subsection \<open>Offered load\<close>

text \<open>
  \<^verbatim>\<open>
  def calculate_erlang(arrival_rate, mean_hold_time, average_call_time):
      if arrival_rate < 0 or mean_hold_time < 0 or average_call_time < 0:
          raise ValueError("All input values must be non-negative.")
      total_time = (mean_hold_time + average_call_time) / 60
      erlangs = round((arrival_rate * total_time) / 60, 4)
      return erlangs
  \<close>
\<close>

definition calculate_erlang :: "real \<Rightarrow> real \<Rightarrow> real \<Rightarrow> error + real" where
  "calculate_erlang arrival_rate mean_hold_time average_call_time =
     (if arrival_rate < 0 \<or> mean_hold_time < 0 \<or> average_call_time < 0 then Inl ValueError
      else let total_time = (mean_hold_time + average_call_time) / 60;
               erlangs = py_round ((arrival_rate * total_time) / 60) 4
           in Inr erlangs)"

text \<open>
  \<^verbatim>\<open>
  def calculate_offered_load(call_arrival_rate, mean_call_duration):
      return call_arrival_rate * mean_call_duration
  \<close>
\<close>

definition calculate_offered_load :: "real \<Rightarrow> real \<Rightarrow> error + real" where
  "calculate_offered_load call_arrival_rate mean_call_duration =
     Inr (call_arrival_rate * mean_call_duration)"

subsection \<open>Library calls that raise\<close>

text \<open>
  A value whose magnitude reaches \<^verbatim>\<open>2**1024 - 2**970\<close> rounds to an infinite double.
  Converting such an \<^verbatim>\<open>int\<close> to \<^verbatim>\<open>float\<close> (which \<^verbatim>\<open>float / int\<close> and
  \<^verbatim>\<open>int - float\<close> do) raises \<^verbatim>\<open>OverflowError\<close>, and so do \<^verbatim>\<open>math.pow\<close> and
  \<^verbatim>\<open>math.exp\<close> for such a result.
\<close>

definition float_overflow_bound :: real where
  "float_overflow_bound = 2 ^ 1024 - 2 ^ 970"

definition int_to_float :: "int \<Rightarrow> error + real" where
  "int_to_float n =
     (if float_overflow_bound \<le> \<bar>of_int n\<bar> then Inl OverflowError else Inr (of_int n))"

text \<open>
  \<^verbatim>\<open>math.pow(x, n)\<close> with an \<^verbatim>\<open>int\<close> exponent: the exponent is converted to a float
  first; zero to a negative power is a domain error.
\<close>

definition math_pow :: "real \<Rightarrow> int \<Rightarrow> error + real" where
  "math_pow x n =
     then_do (int_to_float n) (\<lambda>y.
       if x = 0 \<and> n < 0 then Inl ValueError
       else if float_overflow_bound \<le> \<bar>x powi n\<bar> then Inl OverflowError
       else Inr (x powi n))"

definition math_exp :: "real \<Rightarrow> error + real" where
  "math_exp x = (if float_overflow_bound \<le> exp x then Inl OverflowError else Inr (exp x))"

text \<open>\<^verbatim>\<open>math.factorial(n)\<close>: an exact \<^verbatim>\<open>int\<close>; a negative argument is a ValueError.\<close>

definition math_factorial :: "int \<Rightarrow> error + int" where
  "math_factorial n = (if n < 0 then Inl ValueError else Inr (fact (nat n)))"

text \<open>Arithmetic of a float result that may be infinite with a finite number.\<close>

definition float_div :: "pyfloat \<Rightarrow> real \<Rightarrow> error + pyfloat" where
  "float_div x d =
     (if d = 0 then Inl ZeroDivisionError
      else Inr (case x of
                  Fin v \<Rightarrow> Fin (v / d)
                | PInf \<Rightarrow> (if 0 < d then PInf else NInf)
                | NInf \<Rightarrow> (if 0 < d then NInf else PInf)
                | NaN \<Rightarrow> NaN))"

definition float_mul :: "pyfloat \<Rightarrow> real \<Rightarrow> pyfloat" where
  "float_mul x m =
     (case x of
        Fin v \<Rightarrow> Fin (v * m)
      | PInf \<Rightarrow> (if 0 < m then PInf else if m < 0 then NInf else NaN)
      | NInf \<Rightarrow> (if 0 < m then NInf else if m < 0 then PInf else NaN)
      | NaN \<Rightarrow> NaN)"

definition float_rsub :: "real \<Rightarrow> pyfloat \<Rightarrow> pyfloat" where
  "float_rsub a x =
     (case x of Fin v \<Rightarrow> Fin (a - v) | PInf \<Rightarrow> NInf | NInf \<Rightarrow> PInf | NaN \<Rightarrow> NaN)"

text \<open>The comparison \<^verbatim>\<open>x >= y\<close> of a float result with a finite number.\<close>

definition float_ge :: "pyfloat \<Rightarrow> real \<Rightarrow> bool" where
  "float_ge x y = (case x of Fin v \<Rightarrow> y \<le> v | PInf \<Rightarrow> True | NInf \<Rightarrow> False | NaN \<Rightarrow> False)"

subsection \<open>Channel dimensioning\<close>

text \<open>
  \<^verbatim>\<open>
  def calculate_erlang_b(erlangs, block_level_goal):
      if erlangs < 0 or block_level_goal <= 0 or block_level_goal >= 1:
          raise ValueError(...)
      channel = 1
      previous_d = 1
      previous_e = 1
      while True:
          block_percentage = ((erlangs / channel) * previous_d) /
                             (previous_e + ((erlangs / channel) * previous_d))
          previous_e += (erlangs / channel) * previous_d
          previous_d = (erlangs / channel) * previous_d
          if block_percentage < block_level_goal:
              break
          channel += 1
      return channel
  \<close>
  The loop has no bound, so it is a partial function: \<open>None\<close> is the loop that never
  leaves. \<open>a\<close> names the quotient \<^verbatim>\<open>erlangs / channel\<close>, which one iteration computes
  four times.
\<close>

partial_function (option) erlang_b_loop ::
  "real \<Rightarrow> real \<Rightarrow> int \<Rightarrow> real \<Rightarrow> real \<Rightarrow> (error + int) option" where
  "erlang_b_loop erlangs block_level_goal channel previous_d previous_e =
     (case py_div erlangs (of_int channel) of
        Inl err \<Rightarrow> Some (Inl err)
      | Inr a \<Rightarrow>
          (case py_div (a * previous_d) (previous_e + a * previous_d) of
             Inl err \<Rightarrow> Some (Inl err)
           | Inr block_percentage \<Rightarrow>
               if block_percentage < block_level_goal then Some (Inr channel)
               else erlang_b_loop erlangs block_level_goal (channel + 1)
                      (a * previous_d) (previous_e + a * previous_d)))"

definition calculate_erlang_b :: "real \<Rightarrow> real \<Rightarrow> (error + int) option" where
  "calculate_erlang_b erlangs block_level_goal =
     (if erlangs < 0 \<or> block_level_goal \<le> 0 \<or> block_level_goal \<ge> 1 then Some (Inl ValueError)
      else erlang_b_loop erlangs block_level_goal 1 1 1)"

subsection \<open>Blocking probability\<close>

text \<open>
  \<^verbatim>\<open>
  def calculate_blocking_probability(erlangs, channels):
      if erlangs < 0 or channels < 1:
          raise ValueError(...)
      b = 1
      for k in range(1, channels + 1):
          b = 1 + (k * b) / erlangs
      return 1 / b
  \<close>
  The \<^verbatim>\<open>for\<close> loop runs over the list \<open>[1..channels]\<close>.
\<close>

fun blocking_loop :: "real \<Rightarrow> int list \<Rightarrow> real \<Rightarrow> error + real" where
  "blocking_loop erlangs [] b = Inr b"
| "blocking_loop erlangs (k # ks) b =
     (case py_div (of_int k * b) erlangs of
        Inl err \<Rightarrow> Inl err
      | Inr q \<Rightarrow> blocking_loop erlangs ks (1 + q))"

definition calculate_blocking_probability :: "real \<Rightarrow> int \<Rightarrow> error + real" where
  "calculate_blocking_probability erlangs channels =
     (if erlangs < 0 \<or> channels < 1 then Inl ValueError
      else then_do (blocking_loop erlangs [1..channels] 1) (\<lambda>b. py_div 1 b))"

subsection \<open>Delay probability, waiting time and service level\<close>

text \<open>
  \<^verbatim>\<open>
  def calculate_erlang_c(erlangs, channels):
      if erlangs >= channels:
          return 1
      try:
          numerator = (math.pow(erlangs, channels) / math.factorial(channels))
                      * (channels / (channels - erlangs))
          denominator = sum(math.pow(erlangs, k) / math.factorial(k)
                            for k in range(channels + 1)) + numerator
      except OverflowError:
          return float('inf')
      return numerator / denominator
  \<close>
  \<open>poisson_term\<close> is the expression \<^verbatim>\<open>math.pow(erlangs, k) / math.factorial(k)\<close>, which
  occurs in the numerator and in the sum: the power, the factorial, the conversion of
  the factorial to a float, the division. \<open>sum_terms\<close> is \<^verbatim>\<open>sum\<close> over the generator,
  and \<open>erlang_c_try\<close> the body of the \<^verbatim>\<open>try\<close>.
\<close>

definition poisson_term :: "real \<Rightarrow> int \<Rightarrow> error + real" where
  "poisson_term erlangs k =
     then_do (math_pow erlangs k) (\<lambda>p.
     then_do (math_factorial k) (\<lambda>f.
     then_do (int_to_float f) (\<lambda>ff.
     py_div p ff)))"

fun sum_terms :: "real \<Rightarrow> int list \<Rightarrow> real \<Rightarrow> error + real" where
  "sum_terms erlangs [] acc = Inr acc"
| "sum_terms erlangs (k # ks) acc =
     (case poisson_term erlangs k of
        Inl err \<Rightarrow> Inl err
      | Inr t \<Rightarrow> sum_terms erlangs ks (acc + t))"

definition erlang_c_try :: "real \<Rightarrow> int \<Rightarrow> error + real \<times> real" where
  "erlang_c_try erlangs channels =
     then_do (poisson_term erlangs channels) (\<lambda>q.
     then_do (int_to_float channels) (\<lambda>c.
     then_do (py_div c (c - erlangs)) (\<lambda>r.
     then_do (sum_terms erlangs [0..channels] 0) (\<lambda>s.
     let numerator = q * r;
         denominator = s + numerator
     in Inr (numerator, denominator)))))"

definition calculate_erlang_c :: "real \<Rightarrow> int \<Rightarrow> error + pyfloat" where
  "calculate_erlang_c erlangs channels =
     (if erlangs \<ge> of_int channels then Inr (Fin 1)
      else case erlang_c_try erlangs channels of
             Inl OverflowError \<Rightarrow> Inr PInf
           | Inl err \<Rightarrow> Inl err
           | Inr (numerator, denominator) \<Rightarrow>
               then_do (py_div numerator denominator) (\<lambda>v. Inr (Fin v)))"

text \<open>
  \<^verbatim>\<open>
  def calculate_waiting_time(erlangs, channels, mean_service_time):
      pw = Erlang.calculate_erlang_c(erlangs, channels)
      return (pw / (channels - erlangs)) * mean_service_time \
             if channels > erlangs else float('inf')
  \<close>
\<close>

definition calculate_waiting_time :: "real \<Rightarrow> int \<Rightarrow> real \<Rightarrow> error + pyfloat" where
  "calculate_waiting_time erlangs channels mean_service_time =
     then_do (calculate_erlang_c erlangs channels) (\<lambda>pw.
       if of_int channels > erlangs then
         then_do (int_to_float channels) (\<lambda>c.
         then_do (float_div pw (c - erlangs)) (\<lambda>w.
         Inr (float_mul w mean_service_time)))
       else Inr PInf)"

text \<open>
  \<^verbatim>\<open>
  def calculate_service_level(erlangs, channels, target_time):
      pw = Erlang.calculate_erlang_c(erlangs, channels)
      return (1 - pw * math.exp(-(channels - erlangs) * target_time)) * 100 \
             if channels > erlangs else 0.0
  \<close>
\<close>

definition calculate_service_level :: "real \<Rightarrow> int \<Rightarrow> real \<Rightarrow> error + pyfloat" where
  "calculate_service_level erlangs channels target_time =
     then_do (calculate_erlang_c erlangs channels) (\<lambda>pw.
       if of_int channels > erlangs then
         then_do (int_to_float channels) (\<lambda>c.
         then_do (math_exp (- (c - erlangs) * target_time)) (\<lambda>x.
         Inr (float_mul (float_rsub 1 (float_mul pw x)) 100)))
       else Inr (Fin 0))"

subsection \<open>The Erlang B loops over doubles\<close>

text \<open>
  The operators \<^verbatim>\<open>+\<close>, \<^verbatim>\<open>*\<close> and \<^verbatim>\<open>/\<close> on floats raise nothing when a result
  is too big: the result is an infinity, and an undefined combination of infinities is
  a NaN. \<open>fl\<close> takes an exact result to the float: infinite from the overflow bound on,
  otherwise the number itself (rounding within the range is not modelled, nor is the
  sign of a zero). Division still raises on a zero divisor, and every comparison with a
  NaN is false.
\<close>

definition fl :: "real \<Rightarrow> pyfloat" where
  "fl x = (if float_overflow_bound \<le> x then PInf
           else if x \<le> - float_overflow_bound then NInf
           else Fin x)"

definition signed_inf :: "real \<Rightarrow> pyfloat" where
  "signed_inf s = (if 0 < s then PInf else if s < 0 then NInf else NaN)"

fun fmul :: "pyfloat \<Rightarrow> pyfloat \<Rightarrow> pyfloat" where
  "fmul (Fin a) (Fin b) = fl (a * b)"
| "fmul NaN y = NaN"
| "fmul x NaN = NaN"
| "fmul PInf (Fin b) = signed_inf b"
| "fmul NInf (Fin b) = signed_inf (- b)"
| "fmul (Fin a) PInf = signed_inf a"
| "fmul (Fin a) NInf = signed_inf (- a)"
| "fmul PInf PInf = PInf"
| "fmul PInf NInf = NInf"
| "fmul NInf PInf = NInf"
| "fmul NInf NInf = PInf"

fun fadd :: "pyfloat \<Rightarrow> pyfloat \<Rightarrow> pyfloat" where
  "fadd (Fin a) (Fin b) = fl (a + b)"
| "fadd NaN y = NaN"
| "fadd x NaN = NaN"
| "fadd PInf NInf = NaN"
| "fadd NInf PInf = NaN"
| "fadd PInf y = PInf"
| "fadd x PInf = PInf"
| "fadd NInf y = NInf"
| "fadd x NInf = NInf"

fun fdiv :: "pyfloat \<Rightarrow> pyfloat \<Rightarrow> error + pyfloat" where
  "fdiv x (Fin b) =
     (if b = 0 then Inl ZeroDivisionError
      else Inr (case x of
                  Fin a \<Rightarrow> fl (a / b)
                | PInf \<Rightarrow> signed_inf b
                | NInf \<Rightarrow> signed_inf (- b)
                | NaN \<Rightarrow> NaN))"
| "fdiv NaN y = Inr NaN"
| "fdiv x NaN = Inr NaN"
| "fdiv (Fin a) y = Inr (Fin 0)"
| "fdiv x y = Inr NaN"

fun flt :: "pyfloat \<Rightarrow> pyfloat \<Rightarrow> bool" where
  "flt (Fin a) (Fin b) = (a < b)"
| "flt NaN y = False"
| "flt x NaN = False"
| "flt x NInf = False"
| "flt NInf y = True"
| "flt PInf y = False"
| "flt (Fin a) PInf = True"

text \<open>
  \<open>calculate_erlang_b\<close> once more, the same statements over these operators. The
  conversion of \<open>channel\<close> to a float in \<^verbatim>\<open>erlangs / channel\<close> raises
  \<^verbatim>\<open>OverflowError\<close> once the counter itself is beyond the doubles.
\<close>

partial_function (option) erlang_b_loop_float ::
  "real \<Rightarrow> real \<Rightarrow> int \<Rightarrow> pyfloat \<Rightarrow> pyfloat \<Rightarrow> (error + int) option" where
  "erlang_b_loop_float erlangs block_level_goal channel previous_d previous_e =
     (case int_to_float channel of
        Inl err \<Rightarrow> Some (Inl err)
      | Inr c \<Rightarrow>
          (case fdiv (Fin erlangs) (Fin c) of
             Inl err \<Rightarrow> Some (Inl err)
           | Inr a \<Rightarrow>
               (case fdiv (fmul a previous_d) (fadd previous_e (fmul a previous_d)) of
                  Inl err \<Rightarrow> Some (Inl err)
                | Inr block_percentage \<Rightarrow>
                    if flt block_percentage (Fin block_level_goal) then Some (Inr channel)
                    else erlang_b_loop_float erlangs block_level_goal (channel + 1)
                           (fmul a previous_d) (fadd previous_e (fmul a previous_d)))))"

definition calculate_erlang_b_float :: "real \<Rightarrow> real \<Rightarrow> (error + int) option" where
  "calculate_erlang_b_float erlangs block_level_goal =
     (if erlangs < 0 \<or> block_level_goal \<le> 0 \<or> block_level_goal \<ge> 1 then Some (Inl ValueError)
      else erlang_b_loop_float erlangs block_level_goal 1 (Fin 1) (Fin 1))"

text \<open>\<open>calculate_blocking_probability\<close> once more, over the same operators.\<close>

fun blocking_loop_float :: "real \<Rightarrow> int list \<Rightarrow> pyfloat \<Rightarrow> error + pyfloat" where
  "blocking_loop_float erlangs [] b = Inr b"
| "blocking_loop_float erlangs (k # ks) b =
     (case int_to_float k of
        Inl err \<Rightarrow> Inl err
      | Inr kf \<Rightarrow>
          (case fdiv (fmul (Fin kf) b) (Fin erlangs) of
             Inl err \<Rightarrow> Inl err
           | Inr q \<Rightarrow> blocking_loop_float erlangs ks (fadd (Fin 1) q)))"

definition calculate_blocking_probability_float :: "real \<Rightarrow> int \<Rightarrow> error + pyfloat" where
  "calculate_blocking_probability_float erlangs channels =
     (if erlangs < 0 \<or> channels < 1 then Inl ValueError
      else then_do (blocking_loop_float erlangs [1..channels] (Fin 1)) (\<lambda>b. fdiv (Fin 1) b))"

subsection \<open>The recurrence of the specification\<close>

text \<open>
  The specification defines Erlang B by the recurrence
  \<^verbatim>\<open>B(0) = 1, B(k) = (load * B(k-1)) / (k + load * B(k-1))\<close>. This definition follows
  the specification's words, not the code; it is what the code is compared with.
\<close>

fun erlangB :: "real \<Rightarrow> nat \<Rightarrow> real" where
  "erlangB load 0 = 1"
| "erlangB load (Suc k) = (load * erlangB load k) / (of_nat (Suc k) + load * erlangB load k)"

section \<open>Properties\<close>

subsection \<open>Offered load\<close>

lemma py_round_of_int: "py_round (of_int k) n = of_int k"
proof -
  have "real_of_int k * 10 ^ n = of_int (k * 10 ^ n)" by simp
  then have "round_half_even (of_int k * 10 ^ n) = k * 10 ^ n"
    unfolding round_half_even_def Let_def by (simp only: floor_of_int) simp
  then show ?thesis by (simp add: py_round_def)
qed

text \<open>
  C2 (as amended). With 100 calls per hour, no hold time and 180 seconds of talk time,
  \<open>calculate_erlang\<close> converts the 180 seconds to 0.05 hours by its two divisions by 60,
  multiplies by the arrival rate and rounds to four decimals: the result is 5 Erlangs.
\<close>

theorem calculate_erlang_scenario:
  "calculate_erlang 100 0 180 = Inr (py_round (100 * (180 / 3600)) 4)
   \<and> py_round (100 * (180 / 3600)) 4 = 5"
proof -
  have r: "py_round 5 4 = 5" using py_round_of_int [of 5 4] by simp
  show ?thesis by (simp add: calculate_erlang_def r)
qed

text \<open>
  C2 (as stated) fails: the value returned for the scenario is 5, which is not within
  any reasonable tolerance of 0.0833.
\<close>

theorem calculate_erlang_scenario_counterexample:
  "calculate_erlang 100 0 180 = Inr 5 \<and> \<not> \<bar>5 - 833 / 10000\<bar> \<le> (1 / 1000 :: real)"
proof -
  have r: "py_round 5 4 = 5" using py_round_of_int [of 5 4] by simp
  show ?thesis by (simp add: calculate_erlang_def r)
qed

subsection \<open>The recurrence and the blocking loop\<close>

lemma blocking_loop_snoc:
  "blocking_loop A (xs @ [k]) b =
     (case blocking_loop A xs b of
        Inl err \<Rightarrow> Inl err
      | Inr b' \<Rightarrow> (case py_div (of_int k * b') A of Inl err \<Rightarrow> Inl err | Inr q \<Rightarrow> Inr (1 + q)))"
  by (induction xs arbitrary: b) (auto split: sum.splits)

lemma erlangB_pos: "0 < A \<Longrightarrow> 0 < erlangB A n"
proof (induction n)
  case 0
  then show ?case by simp
next
  case (Suc n)
  then have "0 < A * erlangB A n" by simp
  moreover from this have "0 < real (Suc n) + A * erlangB A n"
    by (intro add_pos_pos) simp_all
  ultimately show ?case by (simp only: erlangB.simps divide_pos_pos)
qed

lemma erlangB_nonneg: "0 \<le> A \<Longrightarrow> 0 \<le> erlangB A n"
proof (induction n)
  case 0
  then show ?case by simp
next
  case (Suc n)
  then have "0 \<le> A * erlangB A n" by simp
  moreover from this have "0 \<le> real (Suc n) + A * erlangB A n"
    by (intro add_nonneg_nonneg) simp_all
  ultimately show ?case by (simp only: erlangB.simps divide_nonneg_nonneg)
qed

lemma erlangB_le_1: "0 \<le> A \<Longrightarrow> erlangB A n \<le> 1"
proof (cases n)
  case 0
  then show ?thesis by simp
next
  case (Suc k)
  assume A: "0 \<le> A"
  have x: "0 \<le> A * erlangB A k" using A erlangB_nonneg [OF A, of k] by simp
  have "A * erlangB A k / (real (Suc k) + A * erlangB A k) \<le> 1"
    using x by (simp add: divide_le_eq)
  then show ?thesis using Suc by simp
qed

lemma upto_int_Suc: "[1..int (Suc n)] = [1..int n] @ [int n + 1]"
  using upto_rec2 [of 1 "int n + 1"] by (simp add: add.commute)

lemma blocking_loop_value:
  assumes A: "0 < A"
  shows "blocking_loop A [1..int n] 1 = Inr (1 / erlangB A n)"
proof (induction n)
  case 0
  then show ?case by simp
next
  case (Suc n)
  have p: "0 < erlangB A n" using A by (rule erlangB_pos)
  have e: "1 + real_of_int (int n + 1) * (1 / erlangB A n) / A = 1 / erlangB A (Suc n)"
    using A p by (simp add: field_simps)
  have "blocking_loop A [1..int (Suc n)] 1
        = Inr (1 + real_of_int (int n + 1) * (1 / erlangB A n) / A)"
    unfolding upto_int_Suc blocking_loop_snoc Suc.IH using A by (simp add: py_div_def)
  then show ?case by (simp only: e)
qed

lemma blocking_probability_value:
  assumes "0 < A" "1 \<le> c"
  shows "calculate_blocking_probability A c = Inr (erlangB A (nat c))"
proof -
  have c: "c = int (nat c)" using assms by simp
  have "blocking_loop A [1..c] 1 = Inr (1 / erlangB A (nat c))"
    using blocking_loop_value [OF assms(1), of "nat c"] c by simp
  moreover have "erlangB A (nat c) \<noteq> 0" using erlangB_pos [OF assms(1), of "nat c"] by simp
  ultimately show ?thesis using assms
    by (simp add: calculate_blocking_probability_def then_do_def py_div_def)
qed

text \<open>
  With no traffic the first pass of the loop divides by \<open>erlangs = 0\<close>: the guard lets
  the load 0 through ("Erlangs must be non-negative"), and the function raises
  \<^verbatim>\<open>ZeroDivisionError\<close> for every channel count.
\<close>

lemma zero_load_divides_by_zero:
  assumes "1 \<le> c"
  shows "calculate_blocking_probability 0 c = Inl ZeroDivisionError"
proof -
  have "[1..c] = 1 # [2..c]" using assms upto_rec1 [of 1 c] by simp
  then show ?thesis using assms
    by (simp add: calculate_blocking_probability_def then_do_def py_div_def)
qed

text \<open>For a positive load the function returns a probability.\<close>

lemma positive_load_probability:
  assumes "0 < load" "1 \<le> channels"
  shows "\<exists>v. calculate_blocking_probability load channels = Inr v \<and> 0 < v \<and> v \<le> 1"
proof -
  have "calculate_blocking_probability load channels = Inr (erlangB load (nat channels))"
    using assms by (rule blocking_probability_value)
  moreover have "0 < erlangB load (nat channels)" using assms(1) by (rule erlangB_pos)
  moreover have "erlangB load (nat channels) \<le> 1" using assms(1) by (intro erlangB_le_1) simp
  ultimately show ?thesis by blast
qed

lemma erlangB_decreasing:
  assumes A: "0 < A"
  shows "erlangB A (Suc n) < erlangB A n"
proof (induction n)
  case 0
  then show ?case using A by (simp add: divide_less_eq)
next
  case (Suc n)
  define x where "x = erlangB A n"
  define y where "y = erlangB A (Suc n)"
  define m where "m = real (Suc n)"
  have x: "0 < x" unfolding x_def using A by (rule erlangB_pos)
  have y: "0 < y" unfolding y_def using A by (rule erlangB_pos)
  have m: "0 < m" by (simp add: m_def)
  have yx: "y < x" using Suc.IH by (simp only: x_def y_def)
  have ydef: "y = A * x / (m + A * x)" by (simp add: x_def y_def m_def)
  have "erlangB A (Suc (Suc n)) = A * y / (m + 1 + A * y)"
    by (simp add: y_def m_def add.commute)
  also have "\<dots> < A * y / (m + A * y)"
    using A y m by (intro divide_strict_left_mono mult_pos_pos add_pos_pos) auto
  also have "\<dots> \<le> A * x / (m + A * x)"
  proof -
    have "A * y * m \<le> A * x * m" using A yx m by simp
    then have "A * y * (m + A * x) \<le> A * x * (m + A * y)" by (simp add: algebra_simps)
    moreover have "0 < m + A * x" "0 < m + A * y"
      using A x y m by (auto intro!: add_pos_pos)
    ultimately show ?thesis by (simp add: pos_divide_le_eq pos_le_divide_eq)
  qed
  also have "\<dots> = y" by (simp only: ydef)
  finally show ?case by (simp only: y_def)
qed

text \<open>
  C3. The claim: for every channel count at least 1, the blocking probability at load 0
  is exactly 0. The code does not return: at load 0 and one channel the loop evaluates
  \<^verbatim>\<open>(1 * 1) / 0\<close> and raises \<^verbatim>\<open>ZeroDivisionError\<close>.
\<close>

theorem zero_load_one_channel_raises: "calculate_blocking_probability 0 1 = Inl ZeroDivisionError"
  by (simp add: calculate_blocking_probability_def then_do_def py_div_def)

text \<open>
  C5. For every load above 0 and every channel count at least 1, the value that
  \<open>calculate_blocking_probability\<close> returns (the reciprocal of the iterated
  \<open>b = 1 + k * b / load\<close>) is the value \<open>B(channels)\<close> of the recurrence of the
  specification, in exact arithmetic.
\<close>

theorem blocking_probability_refines_erlangB:
  assumes "0 < load" "1 \<le> channels"
  shows "calculate_blocking_probability load channels = Inr (erlangB load (nat channels))"
  using assms by (rule blocking_probability_value)

theorem blocking_probability_refines_erlangB_witness:
  "(0::real) < 2 \<and> (1::int) \<le> 3 \<and> calculate_blocking_probability 2 3 = Inr (erlangB 2 3)
   \<and> erlangB 2 3 = 4 / 19"
  using blocking_probability_refines_erlangB [of 2 3] by (simp add: numeral_3_eq_3)

text \<open>
  In exact arithmetic the value returned for a positive load is strictly decreasing in
  the channel count.
\<close>

lemma exact_blocking_probability_decreasing:
  assumes "0 < load" "1 \<le> c"
  shows "\<exists>x y. calculate_blocking_probability load (c + 1) = Inr x
               \<and> calculate_blocking_probability load c = Inr y \<and> x < y"
proof -
  have "nat (c + 1) = Suc (nat c)" using assms(2) by simp
  then have "erlangB load (nat (c + 1)) < erlangB load (nat c)"
    using erlangB_decreasing [OF assms(1), of "nat c"] by (simp only:)
  moreover have "calculate_blocking_probability load (c + 1) = Inr (erlangB load (nat (c + 1)))"
    using assms by (intro blocking_probability_value) simp_all
  moreover have "calculate_blocking_probability load c = Inr (erlangB load (nat c))"
    using assms by (rule blocking_probability_value)
  ultimately show ?thesis by blast
qed

text \<open>
  C8. The claim: for every load from 0 and every channel count from 1 the function
  returns a value in the closed interval from 0 to 1. At load 0 it returns no value:
  with three channels, as with any other count, it raises \<^verbatim>\<open>ZeroDivisionError\<close>.
  For a positive load the bound holds (\<open>positive_load_probability\<close>).
\<close>

theorem zero_load_three_channels_raises: "calculate_blocking_probability 0 3 = Inl ZeroDivisionError"
  by (simp add: calculate_blocking_probability_def then_do_def py_div_def upto_rec1)

subsection \<open>Channel dimensioning\<close>

text \<open>
  After \<open>n\<close> passes of the loop \<open>previous_d\<close> is \<open>load^n / n!\<close> and \<open>previous_e\<close>
  is the sum of these terms up to \<open>n\<close>; their quotient is the recurrence of the
  specification.
\<close>

lemma poisson_sum_pos:
  assumes "0 \<le> (A::real)"
  shows "1 \<le> (\<Sum>k\<le>n. A ^ k / fact k)"
proof (induction n)
  case 0
  then show ?case by simp
next
  case (Suc n)
  have "0 \<le> A ^ Suc n / fact (Suc n)" using assms by simp
  then show ?case using Suc by simp
qed

lemma erlangB_closed_form:
  assumes A: "0 \<le> A"
  shows "erlangB A n = (A ^ n / fact n) / (\<Sum>k\<le>n. A ^ k / fact k)"
proof (induction n)
  case 0
  then show ?case by simp
next
  case (Suc n)
  define d where "d = A ^ n / fact n"
  define e where "e = (\<Sum>k\<le>n. A ^ k / fact k)"
  define m where "m = real (Suc n)"
  have e: "0 < e" using poisson_sum_pos [OF A, of n] by (simp add: e_def)
  have d: "0 \<le> d" using A by (simp add: d_def)
  have m: "0 < m" by (simp add: m_def)
  have d': "A ^ Suc n / fact (Suc n) = A * d / m"
    by (simp add: d_def m_def)
  have e': "(\<Sum>k\<le>Suc n. A ^ k / fact k) = e + A * d / m"
    using d' by (simp add: e_def)
  have B: "erlangB A n = d / e" using Suc by (simp only: d_def e_def)
  have "erlangB A (Suc n) = A * (d / e) / (m + A * (d / e))"
    by (simp only: erlangB.simps B m_def)
  also have "\<dots> = (A * d / m) / (e + A * d / m)"
  proof -
    have "0 < m + A * (d / e)" "0 < e + A * d / m"
      using A d e m by (auto intro!: add_pos_nonneg)
    then show ?thesis using e m by (simp add: field_simps)
  qed
  finally show ?case by (simp only: d' e')
qed

lemma erlang_b_loop_step:
  assumes A: "0 \<le> A"
  shows "erlang_b_loop A g (int n + 1) (A ^ n / fact n) (\<Sum>k\<le>n. A ^ k / fact k)
         = (if erlangB A (Suc n) < g then Some (Inr (int n + 1))
            else erlang_b_loop A g (int (Suc n) + 1)
                   (A ^ Suc n / fact (Suc n)) (\<Sum>k\<le>Suc n. A ^ k / fact k))"
proof -
  define d where "d = A ^ n / fact n"
  define e where "e = (\<Sum>k\<le>n. A ^ k / fact k)"
  have e: "0 < e" using poisson_sum_pos [OF A, of n] by (simp add: e_def)
  have d: "0 \<le> d" using A by (simp add: d_def)
  have c: "real_of_int (int n + 1) \<noteq> 0" by simp
  have d': "A ^ Suc n / fact (Suc n) = A / real_of_int (int n + 1) * d"
    by (simp add: d_def add.commute)
  have e': "(\<Sum>k\<le>Suc n. A ^ k / fact k) = e + A / real_of_int (int n + 1) * d"
    using d' by (simp add: e_def)
  have nz: "e + A / real_of_int (int n + 1) * d \<noteq> 0"
  proof -
    have "0 \<le> A / real_of_int (int n + 1) * d" using A d by simp
    then show ?thesis using e by linarith
  qed
  have B: "erlangB A (Suc n)
           = A / real_of_int (int n + 1) * d / (e + A / real_of_int (int n + 1) * d)"
    unfolding erlangB_closed_form [OF A, of "Suc n"] e' d' ..
  have i: "int (Suc n) + 1 = int n + 1 + 1" by simp
  show ?thesis
    unfolding d_def [symmetric] e_def [symmetric]
    by (subst erlang_b_loop.simps) (simp only: py_div_def c nz B d' e' i if_False sum.case)
qed

lemma erlang_b_loop_result:
  assumes A: "0 \<le> A"
  shows "n < N \<Longrightarrow> erlangB A N < g \<Longrightarrow> (\<forall>k. n < k \<and> k < N \<longrightarrow> g \<le> erlangB A k) \<Longrightarrow>
         erlang_b_loop A g (int n + 1) (A ^ n / fact n) (\<Sum>k\<le>n. A ^ k / fact k)
         = Some (Inr (int N))"
proof (induction "N - Suc n" arbitrary: n)
  case 0
  then have N: "N = Suc n" by simp
  then have "erlangB A (Suc n) < g" using "0.prems"(2) by (simp only:)
  then have "erlang_b_loop A g (int n + 1) (A ^ n / fact n) (\<Sum>k\<le>n. A ^ k / fact k)
          = Some (Inr (int n + 1))"
    using erlang_b_loop_step [OF A, of g n] by simp
  then show ?case by (simp add: N add.commute)
next
  case (Suc m)
  then have lt: "Suc n < N" and m: "m = N - Suc (Suc n)" by simp_all
  have "g \<le> erlangB A (Suc n)" using Suc.prems(3) lt by blast
  then have "erlang_b_loop A g (int n + 1) (A ^ n / fact n) (\<Sum>k\<le>n. A ^ k / fact k)
          = erlang_b_loop A g (int (Suc n) + 1)
              (A ^ Suc n / fact (Suc n)) (\<Sum>k\<le>Suc n. A ^ k / fact k)"
    using erlang_b_loop_step [OF A, of g n] by simp
  also have "\<dots> = Some (Inr (int N))"
    using Suc.prems(2,3) by (intro Suc.hyps(1) m lt) simp_all
  finally show ?case .
qed

lemma erlangB_le_ratio:
  assumes A: "0 \<le> A"
  shows "erlangB A (Suc n) \<le> A / real (Suc n)"
proof -
  define x where "x = A * erlangB A n"
  have x0: "0 \<le> x" using A erlangB_nonneg [OF A, of n] by (simp add: x_def)
  have x1: "x \<le> A" using A erlangB_le_1 [OF A, of n] by (simp add: x_def mult_left_le)
  have "erlangB A (Suc n) = x / (real (Suc n) + x)" by (simp add: x_def)
  also have "\<dots> \<le> x / real (Suc n)"
    using x0 by (intro divide_left_mono) (simp_all add: add_pos_nonneg)
  also have "\<dots> \<le> A / real (Suc n)"
    using x1 by (intro divide_right_mono) simp_all
  finally show ?thesis .
qed

lemma erlangB_eventually_below:
  assumes A: "0 \<le> A" and g: "0 < g"
  shows "\<exists>n. erlangB A n < g"
proof -
  obtain n :: nat where n: "A / g < real n" using reals_Archimedean2 by blast
  then have "A < g * real n" using g by (simp add: pos_divide_less_eq mult.commute)
  also have "\<dots> \<le> g * real (Suc n)" using g by simp
  finally have "A / real (Suc n) < g" by (simp add: pos_divide_less_eq)
  then have "erlangB A (Suc n) < g" using erlangB_le_ratio [OF A, of n] by linarith
  then show ?thesis ..
qed

text \<open>
  In exact arithmetic the search returns for every load from 0 and every goal strictly
  between 0 and 1, and what it returns is the smallest channel count whose Erlang B
  value is below the goal.
\<close>

lemma search_returns_least:
  assumes "0 \<le> load" "0 < goal" "goal < 1"
  shows "\<exists>n. calculate_erlang_b load goal = Some (Inr (int n)) \<and> 1 \<le> n
             \<and> erlangB load n < goal \<and> (\<forall>k<n. goal \<le> erlangB load k)"
proof -
  define N where "N = (LEAST n. erlangB load n < goal)"
  have ex: "\<exists>n. erlangB load n < goal" using assms(1,2) by (rule erlangB_eventually_below)
  then have N: "erlangB load N < goal" unfolding N_def by (rule LeastI_ex)
  have least: "goal \<le> erlangB load k" if "k < N" for k
    using not_less_Least [of k "\<lambda>n. erlangB load n < goal"] that by (simp add: N_def)
  have "N \<noteq> 0" using N assms(3) by (cases N) auto
  then have pos: "0 < N" by simp
  have "erlang_b_loop load goal (int 0 + 1) (load ^ 0 / fact 0) (\<Sum>k\<le>0. load ^ k / fact k)
        = Some (Inr (int N))"
    using pos N least by (intro erlang_b_loop_result assms(1)) simp_all
  then have "calculate_erlang_b load goal = Some (Inr (int N))"
    using assms by (simp add: calculate_erlang_b_def)
  then show ?thesis using pos N least by (intro exI [of _ N]) simp
qed

text \<open>
  The same in terms of \<open>calculate_blocking_probability\<close>, which agrees with the
  recurrence when the load is positive.
\<close>

lemma search_returns_least_blocking_probability:
  assumes "0 < load" "0 < goal" "goal < 1"
  shows "\<exists>c. calculate_erlang_b load goal = Some (Inr c) \<and> 1 \<le> c
             \<and> (\<exists>v. calculate_blocking_probability load c = Inr v \<and> v < goal)
             \<and> (\<forall>k. 1 \<le> k \<and> k < c \<longrightarrow>
                    (\<exists>w. calculate_blocking_probability load k = Inr w \<and> goal \<le> w))"
proof -
  have "0 \<le> load" using assms(1) by simp
  then obtain n where n: "calculate_erlang_b load goal = Some (Inr (int n))" "1 \<le> n"
    "erlangB load n < goal" "\<forall>k<n. goal \<le> erlangB load k"
    using search_returns_least [of load goal] assms(2,3) by blast
  have v: "calculate_blocking_probability load (int n) = Inr (erlangB load n)"
    using blocking_probability_value [OF assms(1), of "int n"] n(2) by simp
  have w: "\<exists>w. calculate_blocking_probability load k = Inr w \<and> goal \<le> w"
    if "1 \<le> k" "k < int n" for k
  proof -
    have "calculate_blocking_probability load k = Inr (erlangB load (nat k))"
      using assms(1) that(1) by (rule blocking_probability_value)
    moreover have "goal \<le> erlangB load (nat k)" using n(4) that by simp
    ultimately show ?thesis by blast
  qed
  show ?thesis
    using n(1,2,3) v w by (intro exI [of _ "int n"]) auto
qed

text \<open>
  C10. For every goal strictly between 0 and 1, the search called with load 0 returns the
  channel count 1 and does not raise: the first pass computes the blocking value
  \<open>0 / (1 + 0) = 0\<close>, which is below the goal, and leaves the loop.
\<close>

theorem calculate_erlang_b_zero_load:
  assumes "0 < goal" "goal < 1"
  shows "calculate_erlang_b 0 goal = Some (Inr 1)"
  using assms
  by (simp add: calculate_erlang_b_def py_div_def erlang_b_loop.simps [of 0 goal 1 1 1])

theorem calculate_erlang_b_zero_load_witness:
  "(0::real) < 1 / 100 \<and> (1 / 100 :: real) < 1 \<and> calculate_erlang_b 0 (1 / 100) = Some (Inr 1)"
  using calculate_erlang_b_zero_load [of "1 / 100"] by simp

subsection \<open>Delay probability\<close>

text \<open>
  For a load from 0 and below the channel count, the body of the \<^verbatim>\<open>try\<close> raises
  \<^verbatim>\<open>OverflowError\<close> exactly when the power \<open>load^channels\<close> or the factorial of
  the channel count reaches the overflow bound; the terms of the sum are no bigger.
\<close>

lemma bound_gt_1: "1 < float_overflow_bound"
  by (simp add: float_overflow_bound_def)

lemma bound_pos: "0 < float_overflow_bound"
  using bound_gt_1 by linarith

lemma fact_171_overflows: "float_overflow_bound \<le> fact 171"
  by (simp add: float_overflow_bound_def fact_numeral)

lemma real_le_fact: "real n \<le> fact n"
proof -
  have "n \<le> fact n" by (rule fact_ge_self)
  then have "real n \<le> real (fact n)" by (simp only: of_nat_le_iff)
  then show ?thesis by simp
qed

lemma poisson_term_value:
  assumes "0 \<le> A" "A ^ n < float_overflow_bound" "fact n < float_overflow_bound"
  shows "poisson_term A (int n) = Inr (A ^ n / fact n)"
proof -
  have "real n < float_overflow_bound" using real_le_fact [of n] assms(3) by linarith
  then have 1: "int_to_float (int n) = Inr (real n)" by (simp add: int_to_float_def)
  have 2: "math_pow A (int n) = Inr (A ^ n)"
    using assms(1,2) by (simp add: math_pow_def 1 then_do_def)
  have 3: "math_factorial (int n) = Inr (fact n)" by (simp add: math_factorial_def)
  have 4: "int_to_float (fact n) = Inr (fact n)"
    using assms(3) by (simp add: int_to_float_def)
  show ?thesis by (simp add: poisson_term_def 2 3 4 then_do_def py_div_def)
qed

lemma poisson_term_overflow:
  assumes "0 \<le> A" "float_overflow_bound \<le> A ^ n \<or> float_overflow_bound \<le> fact n"
  shows "poisson_term A (int n) = Inl OverflowError"
proof (cases "float_overflow_bound \<le> real n")
  case True
  then show ?thesis by (simp add: poisson_term_def math_pow_def int_to_float_def then_do_def)
next
  case False
  then have 1: "int_to_float (int n) = Inr (real n)" by (simp add: int_to_float_def)
  show ?thesis
  proof (cases "float_overflow_bound \<le> A ^ n")
    case True
    then have "math_pow A (int n) = Inl OverflowError"
      using assms(1) by (simp add: math_pow_def 1 then_do_def)
    then show ?thesis by (simp add: poisson_term_def then_do_def)
  next
    case False
    then have 2: "math_pow A (int n) = Inr (A ^ n)"
      using assms(1) by (simp add: math_pow_def 1 then_do_def)
    have 3: "math_factorial (int n) = Inr (fact n)" by (simp add: math_factorial_def)
    have "float_overflow_bound \<le> fact n" using assms(2) False by blast
    then have 4: "int_to_float (fact n) = Inl OverflowError"
      by (simp add: int_to_float_def)
    show ?thesis by (simp add: poisson_term_def 2 3 4 then_do_def)
  qed
qed

lemma overflow_mono:
  assumes A: "0 \<le> A" and kn: "k \<le> n"
    and ov: "float_overflow_bound \<le> A ^ k \<or> float_overflow_bound \<le> fact k"
  shows "float_overflow_bound \<le> A ^ n \<or> float_overflow_bound \<le> fact n"
proof (cases "float_overflow_bound \<le> A ^ k")
  case True
  have "1 < A"
  proof (rule ccontr)
    assume "\<not> 1 < A"
    then have "A ^ k \<le> 1" using A by (simp add: power_le_one)
    then show False using True bound_gt_1 by linarith
  qed
  then have "A ^ k \<le> A ^ n" using kn by (simp add: power_increasing)
  then show ?thesis using True by linarith
next
  case False
  then have "float_overflow_bound \<le> fact k" using ov by blast
  moreover have "(fact k :: real) \<le> fact n" using kn by (simp add: fact_mono)
  ultimately show ?thesis by linarith
qed

lemma sum_terms_snoc:
  "sum_terms A (xs @ [k]) acc =
     (case sum_terms A xs acc of
        Inl err \<Rightarrow> Inl err
      | Inr s \<Rightarrow> (case poisson_term A k of Inl err \<Rightarrow> Inl err | Inr t \<Rightarrow> Inr (s + t)))"
  by (induction xs arbitrary: acc) (auto split: sum.splits)

lemma upto_0_int_Suc: "[0..int (Suc n)] = [0..int n] @ [int (Suc n)]"
  using upto_rec2 [of 0 "int n + 1"] by (simp add: add.commute)

lemma sum_terms_value:
  assumes A: "0 \<le> A"
    and no: "A ^ n < float_overflow_bound" "fact n < float_overflow_bound"
  shows "m \<le> n \<Longrightarrow> sum_terms A [0..int m] 0 = Inr (\<Sum>k\<le>m. A ^ k / fact k)"
proof (induction m)
  case 0
  have "poisson_term A (int 0) = Inr (A ^ 0 / fact 0)"
    using A bound_gt_1 by (intro poisson_term_value) simp_all
  then show ?case by simp
next
  case (Suc m)
  have "\<not> (float_overflow_bound \<le> A ^ Suc m \<or> float_overflow_bound \<le> fact (Suc m))"
  proof
    assume "float_overflow_bound \<le> A ^ Suc m \<or> float_overflow_bound \<le> fact (Suc m)"
    with A Suc.prems
    have "float_overflow_bound \<le> A ^ n \<or> float_overflow_bound \<le> fact n"
      by (rule overflow_mono)
    then show False using no by linarith
  qed
  then have "A ^ Suc m < float_overflow_bound" "fact (Suc m) < float_overflow_bound"
    by (simp_all only: not_le de_Morgan_disj)
  with A have t: "poisson_term A (int (Suc m)) = Inr (A ^ Suc m / fact (Suc m))"
    by (rule poisson_term_value)
  have s: "sum_terms A [0..int m] 0 = Inr (\<Sum>k\<le>m. A ^ k / fact k)"
    using Suc by simp
  show ?case unfolding upto_0_int_Suc sum_terms_snoc s t by simp
qed

lemma erlang_c_try_value:
  assumes A: "0 \<le> A" and lt: "A < real n"
    and no: "A ^ n < float_overflow_bound" "fact n < float_overflow_bound"
  shows "erlang_c_try A (int n) =
           Inr (A ^ n / fact n * (real n / (real n - A)),
                (\<Sum>k\<le>n. A ^ k / fact k) + A ^ n / fact n * (real n / (real n - A)))"
proof -
  have "real n < float_overflow_bound" using real_le_fact [of n] no(2) by linarith
  then have 1: "int_to_float (int n) = Inr (real n)" by (simp add: int_to_float_def)
  have 2: "poisson_term A (int n) = Inr (A ^ n / fact n)"
    using A no by (rule poisson_term_value)
  have 3: "py_div (real n) (real n - A) = Inr (real n / (real n - A))"
    using lt by (simp add: py_div_def)
  have 4: "sum_terms A [0..int n] 0 = Inr (\<Sum>k\<le>n. A ^ k / fact k)"
    using sum_terms_value [OF A no, of n] by simp
  show ?thesis by (simp add: erlang_c_try_def 1 2 3 4 then_do_def Let_def)
qed

lemma erlang_c_value:
  assumes A: "0 \<le> A" and lt: "A < real n"
    and no: "A ^ n < float_overflow_bound" "fact n < float_overflow_bound"
  shows "calculate_erlang_c A (int n) =
           Inr (Fin (A ^ n / fact n * (real n / (real n - A)) /
                ((\<Sum>k\<le>n. A ^ k / fact k) + A ^ n / fact n * (real n / (real n - A)))))"
proof -
  have "0 \<le> A ^ n / fact n * (real n / (real n - A))" using A lt by simp
  then have "(\<Sum>k\<le>n. A ^ k / fact k) + A ^ n / fact n * (real n / (real n - A)) \<noteq> 0"
    using poisson_sum_pos [OF A, of n] by linarith
  then show ?thesis
    using lt by (simp add: calculate_erlang_c_def erlang_c_try_value [OF assms] then_do_def py_div_def)
qed

lemma erlang_c_overflow:
  assumes A: "0 \<le> A" and lt: "A < real n"
    and ov: "float_overflow_bound \<le> A ^ n \<or> float_overflow_bound \<le> fact n"
  shows "calculate_erlang_c A (int n) = Inr PInf"
proof -
  have "poisson_term A (int n) = Inl OverflowError" using A ov by (rule poisson_term_overflow)
  then have "erlang_c_try A (int n) = Inl OverflowError"
    by (simp add: erlang_c_try_def then_do_def)
  then show ?thesis using lt by (simp add: calculate_erlang_c_def)
qed

text \<open>Whatever the arguments, the handler leaves no \<^verbatim>\<open>OverflowError\<close> to the caller.\<close>

lemma erlang_c_no_overflow_error: "calculate_erlang_c A c \<noteq> Inl OverflowError"
  by (auto simp: calculate_erlang_c_def then_do_def py_div_def
      split: sum.splits error.splits prod.splits if_splits)

text \<open>
  For a positive load below the channel count the delay probability is at least the
  blocking probability that \<open>calculate_blocking_probability\<close> returns.
\<close>

lemma positive_load_delay_dominates:
  assumes A: "0 < A" and lt: "A < of_int c"
  shows "\<exists>C B. calculate_erlang_c A c = Inr C \<and> calculate_blocking_probability A c = Inr B
               \<and> float_ge C B"
proof -
  define n where "n = nat c"
  have c: "c = int n" and n: "A < real n" and c1: "1 \<le> c" using A lt by (simp_all add: n_def)
  have B: "calculate_blocking_probability A c = Inr (erlangB A n)"
    using A c1 unfolding n_def by (rule blocking_probability_value)
  show ?thesis
  proof (cases "float_overflow_bound \<le> A ^ n \<or> float_overflow_bound \<le> fact n")
    case True
    then have "calculate_erlang_c A c = Inr PInf"
      unfolding c using A n by (intro erlang_c_overflow) simp_all
    then show ?thesis using B by (simp add: float_ge_def)
  next
    case False
    then have no: "A ^ n < float_overflow_bound" "fact n < float_overflow_bound" by simp_all
    define T where "T = A ^ n / fact n"
    define S where "S = (\<Sum>k\<le>n. A ^ k / fact k)"
    define r where "r = real n / (real n - A)"
    have A0: "0 \<le> A" using A by simp
    have C: "calculate_erlang_c A c = Inr (Fin (T * r / (S + T * r)))"
      unfolding c T_def S_def r_def using A0 n no by (rule erlang_c_value)
    have Bv: "erlangB A n = T / S" unfolding T_def S_def using A0 by (rule erlangB_closed_form)
    have S: "0 < S" using poisson_sum_pos [OF A0, of n] by (simp add: S_def)
    have T: "0 < T" using A by (simp add: T_def)
    have d: "0 < real n - A" using n by simp
    have r: "0 < r" using n A by (simp add: r_def)
    have key: "real n * T \<le> A * S"
    proof -
      obtain m where m: "n = Suc m" using n A by (cases n) auto
      have "real n * T = A * (A ^ m / fact m)" by (simp add: T_def m)
      also have "A ^ m / fact m \<le> S"
      proof -
        have "(\<lambda>k. A ^ k / fact k) m \<le> (\<Sum>k\<in>{..n}. A ^ k / fact k)"
          using A0 by (intro member_le_sum) (simp_all add: m)
        then show ?thesis by (simp add: S_def)
      qed
      finally show ?thesis using A by simp
    qed
    have "T / S \<le> T * r / (S + T * r)"
    proof -
      have rd: "r * (real n - A) = real n" using d by (simp add: r_def)
      have "(S + T * r) * (real n - A) = S * real n - A * S + T * (r * (real n - A))"
        by (simp add: algebra_simps)
      also have "\<dots> = S * real n - A * S + real n * T" by (simp only: rd mult.commute)
      also have "\<dots> \<le> S * real n" using key by simp
      also have "\<dots> = r * S * (real n - A)"
        using rd by (simp add: mult.assoc mult.left_commute mult.commute)
      finally have "S + T * r \<le> r * S" using d by (simp only: mult_le_cancel_right_pos)
      then have "T * (S + T * r) \<le> T * (r * S)" using T by (simp only: mult_le_cancel_left_pos)
      then have "T * (S + T * r) \<le> T * r * S" by (simp only: mult.assoc)
      moreover have "0 < S + T * r" using S T r by (simp add: add_pos_pos)
      ultimately show ?thesis using S by (simp add: pos_divide_le_eq pos_le_divide_eq)
    qed
    then show ?thesis using B C Bv by (simp add: float_ge_def)
  qed
qed

text \<open>
  C1 (as amended). For every load and channel count with \<open>0 \<le> load < channels\<close>, when
  a power or a factorial of the computation overflows, \<open>calculate_erlang_c\<close> catches the
  \<^verbatim>\<open>OverflowError\<close> and returns \<^verbatim>\<open>float('inf')\<close>; it raises nothing.
\<close>

theorem erlang_c_overflow_returns_inf:
  assumes "0 \<le> load" "load < of_int channels" "k \<le> nat channels"
    and "float_overflow_bound \<le> load ^ k \<or> float_overflow_bound \<le> fact k"
  shows "calculate_erlang_c load channels = Inr PInf"
proof -
  have c: "channels = int (nat channels)" using assms(1,2) by simp
  have "load < real (nat channels)" using assms(1,2) by simp
  moreover have "float_overflow_bound \<le> load ^ nat channels
                 \<or> float_overflow_bound \<le> fact (nat channels)"
    using assms(1,3,4) by (rule overflow_mono)
  ultimately have "calculate_erlang_c load (int (nat channels)) = Inr PInf"
    using assms(1) by (intro erlang_c_overflow)
  then show ?thesis using c by simp
qed

theorem erlang_c_overflow_returns_inf_witness:
  "(0::real) \<le> 2 \<and> (2::real) < of_int 171 \<and> (171::nat) \<le> nat 171
   \<and> float_overflow_bound \<le> fact 171 \<and> calculate_erlang_c 2 171 = Inr PInf"
  using erlang_c_overflow_returns_inf [of 2 171 171] fact_171_overflows by simp

text \<open>
  C1 (as stated) fails: with load 1 and 171 channels the factorial of 171 is too big for
  a float, and the value returned is not 1.
\<close>

theorem erlang_c_overflow_not_one:
  "(0::real) \<le> 1 \<and> (1::real) < of_int 171 \<and> float_overflow_bound \<le> fact 171
   \<and> calculate_erlang_c 1 171 \<noteq> Inr (Fin 1)"
proof -
  have "calculate_erlang_c 1 (int 171) = Inr PInf"
    using fact_171_overflows by (intro erlang_c_overflow) simp_all
  then show ?thesis using fact_171_overflows by simp
qed

text \<open>
  C9. The claim: for every load from 0 below the channel count, the delay probability is
  at least the blocking probability. At load 0 with one channel the delay probability is
  0 and \<open>calculate_blocking_probability\<close> raises \<^verbatim>\<open>ZeroDivisionError\<close>: there is no
  blocking probability to compare with. For a positive load the inequality holds
  (\<open>positive_load_delay_dominates\<close>).
\<close>

theorem zero_load_delay_without_blocking:
  "calculate_erlang_c 0 1 = Inr (Fin 0)
   \<and> calculate_blocking_probability 0 1 = Inl ZeroDivisionError"
proof -
  have "calculate_erlang_c 0 (int 1) = Inr (Fin (0 ^ 1 / fact 1 * (real 1 / (real 1 - 0)) /
          ((\<Sum>k\<le>1. 0 ^ k / fact k) + 0 ^ 1 / fact 1 * (real 1 / (real 1 - 0)))))"
    using bound_gt_1 by (intro erlang_c_value) simp_all
  then have "calculate_erlang_c 0 1 = Inr (Fin 0)" by simp
  then show ?thesis
    by (simp add: calculate_blocking_probability_def then_do_def py_div_def)
qed

subsection \<open>Argument checks\<close>

text \<open>
  C4 (as amended). \<open>calculate_erlang\<close> fails with \<^verbatim>\<open>ValueError\<close> when one of its
  inputs is negative, \<open>calculate_blocking_probability\<close> when the load is negative or the
  channel count is below 1, \<open>calculate_erlang_b\<close> when the load is negative or the goal
  is outside the open interval from 0 to 1. \<open>calculate_erlang_c\<close>,
  \<open>calculate_waiting_time\<close> and \<open>calculate_service_level\<close> check nothing: whenever the
  load is at least the channel count, a channel count below 1 included, they return
  1, infinity and 0.
\<close>

theorem invalid_argument_handling:
  "(arrival_rate < 0 \<or> mean_hold_time < 0 \<or> average_call_time < 0 \<longrightarrow>
      calculate_erlang arrival_rate mean_hold_time average_call_time = Inl ValueError)
   \<and> (load < 0 \<or> channels < 1 \<longrightarrow>
      calculate_blocking_probability load channels = Inl ValueError)
   \<and> (load < 0 \<or> goal \<le> 0 \<or> 1 \<le> goal \<longrightarrow>
      calculate_erlang_b load goal = Some (Inl ValueError))
   \<and> (of_int channels \<le> load \<longrightarrow>
      calculate_erlang_c load channels = Inr (Fin 1)
      \<and> calculate_waiting_time load channels mean_service_time = Inr PInf
      \<and> calculate_service_level load channels target_time = Inr (Fin 0))"
  by (simp add: calculate_erlang_def calculate_blocking_probability_def calculate_erlang_b_def
      calculate_erlang_c_def calculate_waiting_time_def calculate_service_level_def then_do_def)

theorem invalid_argument_handling_witness:
  "calculate_erlang (- 1) 0 0 = Inl ValueError
   \<and> calculate_blocking_probability 2 0 = Inl ValueError
   \<and> calculate_erlang_b 2 1 = Some (Inl ValueError)
   \<and> calculate_erlang_c 2 0 = Inr (Fin 1)
   \<and> calculate_waiting_time 2 0 3 = Inr PInf
   \<and> calculate_service_level 2 0 3 = Inr (Fin 0)"
  using invalid_argument_handling [of "- 1" 0 0 2 0 1 3 3] by simp

text \<open>
  C4 (as stated) fails: \<open>calculate_erlang_c\<close> accepts the load \<open>-1\<close> with one channel
  and the load 5 with no channel, and returns 1 for both.
\<close>

theorem erlang_c_accepts_invalid_input:
  "calculate_erlang_c (- 1) 1 = Inr (Fin 1) \<and> calculate_erlang_c 5 0 = Inr (Fin 1)"
proof -
  have b: "\<not> float_overflow_bound \<le> 1" using bound_gt_1 by simp
  have i0: "int_to_float 0 = Inr 0" and i1: "int_to_float 1 = Inr 1"
    using b bound_pos by (simp_all add: int_to_float_def)
  have p0: "poisson_term (- 1) 0 = Inr 1"
    using b by (simp add: poisson_term_def math_pow_def math_factorial_def i0 i1 then_do_def py_div_def)
  have p1: "poisson_term (- 1) 1 = Inr (- 1)"
    using b by (simp add: poisson_term_def math_pow_def math_factorial_def i1 then_do_def py_div_def)
  have u: "[0..1::int] = [0, 1]" by (simp add: upto_rec1)
  have "erlang_c_try (- 1) 1 = Inr (- 1 / 2, - 1 / 2)"
    by (simp add: erlang_c_try_def p0 p1 i1 u then_do_def py_div_def Let_def)
  then show ?thesis by (simp add: calculate_erlang_c_def then_do_def py_div_def)
qed

subsection \<open>Overflow in the two Erlang B loops\<close>

text \<open>
  Over doubles the two loops leave the exact values as soon as a running value leaves
  the range: \<open>previous_d\<close> and \<open>previous_e\<close> of the search hold \<open>load^n / n!\<close> and
  its sums, and \<open>b\<close> of \<open>calculate_blocking_probability\<close> holds the reciprocal of the
  blocking probability. Only \<open>calculate_erlang_c\<close> has a handler for the overflow.
\<close>

lemma fl_fin: "- float_overflow_bound < x \<Longrightarrow> x < float_overflow_bound \<Longrightarrow> fl x = Fin x"
  by (simp add: fl_def)

lemma fl_inf: "float_overflow_bound \<le> x \<Longrightarrow> fl x = PInf"
  by (simp add: fl_def)

lemma erlang_b_loop_float_raise:
  assumes "int_to_float ch = Inl err"
  shows "erlang_b_loop_float L g ch d e = Some (Inl err)"
  by (subst erlang_b_loop_float.simps) (simp only: assms sum.case)

lemma erlang_b_loop_float_next:
  assumes "int_to_float ch = Inr c" "fdiv (Fin L) (Fin c) = Inr a"
    and "fmul a d = t" "fadd e t = e'" "fdiv t e' = Inr blk" "\<not> flt blk (Fin g)"
    and "ch' = ch + 1"
  shows "erlang_b_loop_float L g ch d e = erlang_b_loop_float L g ch' t e'"
  by (subst erlang_b_loop_float.simps) (simp only: assms sum.case if_False)

lemma erlang_b_loop_float_return:
  assumes "int_to_float ch = Inr c" "fdiv (Fin L) (Fin c) = Inr a"
    and "fmul a d = t" "fadd e t = e'" "fdiv t e' = Inr blk" "flt blk (Fin g)"
  shows "erlang_b_loop_float L g ch d e = Some (Inr ch)"
  by (subst erlang_b_loop_float.simps) (simp only: assms sum.case if_True)

text \<open>
  Where nothing overflows the two readings agree on the inputs of the other claims: at
  load 0 the search returns 1 and the blocking probability divides by zero.
\<close>

lemma float_zero_load_search:
  assumes "0 < goal" "goal < 1"
  shows "calculate_erlang_b_float 0 goal = Some (Inr 1)"
proof -
  have i: "int_to_float 1 = Inr 1" by (simp add: int_to_float_def float_overflow_bound_def)
  have z: "fl 0 = Fin 0" "fl 1 = Fin 1" using bound_gt_1 by (simp_all add: fl_def)
  have "erlang_b_loop_float 0 goal 1 (Fin 1) (Fin 1) = Some (Inr 1)"
    using assms by (subst erlang_b_loop_float.simps) (simp add: i z)
  then show ?thesis using assms by (simp add: calculate_erlang_b_float_def)
qed

lemma float_zero_load_divides_by_zero:
  assumes "1 \<le> c"
  shows "calculate_blocking_probability_float 0 c = Inl ZeroDivisionError"
proof -
  have u: "[1..c] = 1 # [2..c]" using assms upto_rec1 [of 1 c] by simp
  have i: "int_to_float 1 = Inr 1" by (simp add: int_to_float_def float_overflow_bound_def)
  show ?thesis using assms
    by (simp add: calculate_blocking_probability_float_def then_do_def u i)
qed

text \<open>
  Once the sum \<open>previous_e\<close> is infinite while the term is still finite, the next
  \<open>block_percentage\<close> is a finite number over infinity, that is 0, and the search
  returns the current channel whatever the blocking probability there is.
\<close>

lemma saturated_sum_returns_at_once:
  assumes "0 < L" "0 < x" "0 < goal" "1 \<le> ch" "real_of_int ch < float_overflow_bound"
    and "L / real_of_int ch < float_overflow_bound"
    and "L / real_of_int ch * x < float_overflow_bound"
  shows "erlang_b_loop_float L goal ch (Fin x) PInf = Some (Inr ch)"
proof -
  have c: "int_to_float ch = Inr (real_of_int ch)"
    using assms(4,5) by (simp add: int_to_float_def)
  have q: "0 < L / real_of_int ch" using assms(1,4) by simp
  have a: "fdiv (Fin L) (Fin (real_of_int ch)) = Inr (Fin (L / real_of_int ch))"
  proof -
    have "fl (L / real_of_int ch) = Fin (L / real_of_int ch)"
      using q assms(6) bound_pos by (intro fl_fin) linarith+
    then show ?thesis using assms(4) by simp
  qed
  have t: "fmul (Fin (L / real_of_int ch)) (Fin x) = Fin (L / real_of_int ch * x)"
  proof -
    have "0 < L / real_of_int ch * x" using q assms(2) by (rule mult_pos_pos)
    then have "fl (L / real_of_int ch * x) = Fin (L / real_of_int ch * x)"
      using assms(7) bound_pos by (intro fl_fin) linarith+
    then show ?thesis by simp
  qed
  show ?thesis
  proof (rule erlang_b_loop_float_return [where blk = "Fin 0", OF c a t])
    show "fadd PInf (Fin (L / real_of_int ch * x)) = PInf" by simp
    show "fdiv (Fin (L / real_of_int ch * x)) PInf = Inr (Fin 0)" by simp
    show "flt (Fin 0) (Fin goal)" using assms(3) by simp
  qed
qed

text \<open>
  Once the term and the sum are both infinite, \<open>block_percentage\<close> is a NaN in every
  pass, no comparison succeeds, and the loop goes on until the counter \<open>channel\<close>
  itself is too big for a float.
\<close>

lemma saturated_loop_never_returns:
  assumes L: "0 < L" "L < float_overflow_bound"
  shows "1 \<le> ch \<Longrightarrow> erlang_b_loop_float L g ch PInf PInf = Some (Inl OverflowError)"
proof (induction "nat (\<lceil>float_overflow_bound\<rceil> - ch)" arbitrary: ch rule: less_induct)
  case less
  show ?case
  proof (cases "float_overflow_bound \<le> \<bar>real_of_int ch\<bar>")
    case True
    then have "int_to_float ch = Inl OverflowError" by (simp add: int_to_float_def)
    then show ?thesis by (rule erlang_b_loop_float_raise)
  next
    case False
    then have c: "int_to_float ch = Inr (real_of_int ch)" by (simp add: int_to_float_def)
    have ch: "1 \<le> real_of_int ch" using less.prems by simp
    have lt: "real_of_int ch < float_overflow_bound" using False ch by simp
    have q1: "0 < L / real_of_int ch" using L(1) ch by simp
    have "L / real_of_int ch \<le> L" using L(1) ch by (simp add: divide_le_eq mult_le_cancel_left1)
    then have q2: "L / real_of_int ch < float_overflow_bound" using L(2) by linarith
    have a: "fdiv (Fin L) (Fin (real_of_int ch)) = Inr (Fin (L / real_of_int ch))"
      using ch q1 q2 bound_pos by (simp add: fl_def)
    have t: "fmul (Fin (L / real_of_int ch)) PInf = PInf"
      using q1 by (simp add: signed_inf_def)
    have "0 < \<lceil>float_overflow_bound\<rceil> - ch" using lt by (simp add: less_ceiling_iff)
    then have m: "nat (\<lceil>float_overflow_bound\<rceil> - (ch + 1)) < nat (\<lceil>float_overflow_bound\<rceil> - ch)"
      by linarith
    have "erlang_b_loop_float L g ch PInf PInf = erlang_b_loop_float L g (ch + 1) PInf PInf"
    proof (rule erlang_b_loop_float_next [where blk = NaN, OF c a t])
      show "fadd PInf PInf = PInf" by simp
      show "fdiv PInf PInf = Inr NaN" by simp
      show "\<not> flt NaN (Fin g)" by simp
      show "ch + 1 = ch + 1" ..
    qed
    also have "\<dots> = Some (Inl OverflowError)"
      using less.prems by (intro less.hyps [OF m]) simp
    finally show ?thesis .
  qed
qed

text \<open>
  C6. The claim: for every load from 0 and every goal strictly between 0 and 1 the search
  returns the smallest channel count whose blocking probability is below the goal. With
  the load \<open>2^1023\<close>, a double, and the goal one half the second pass computes the term
  \<open>2^1022 * 2^1023\<close>, which is infinite, and the sum becomes infinite with it: the search
  returns no channel count. It ends, after as many passes as there are integers in the
  range of the doubles, with the \<^verbatim>\<open>OverflowError\<close> of the conversion of \<open>channel\<close>.
  In exact arithmetic the claim holds (\<open>search_returns_least\<close>).
\<close>

theorem huge_load_search_returns_no_channel: "calculate_erlang_b_float (2 ^ 1023) (1 / 2) = Some (Inl OverflowError)"
proof -
  define L :: real where "L = 2 ^ 1023"
  have L: "0 < L" "L < float_overflow_bound" "1 + L < float_overflow_bound"
    "float_overflow_bound \<le> L / 2 * L"
    by (simp_all add: L_def float_overflow_bound_def)
  have i: "int_to_float 1 = Inr 1" "int_to_float 2 = Inr 2"
    by (simp_all add: int_to_float_def float_overflow_bound_def)
  have "L / (1 + L) < 1" using L(1) by (simp add: divide_less_eq)
  then have L1: "L / (1 + L) < float_overflow_bound" using bound_gt_1 by linarith
  have s1: "erlang_b_loop_float L (1 / 2) 1 (Fin 1) (Fin 1)
            = erlang_b_loop_float L (1 / 2) 2 (Fin L) (Fin (1 + L))"
  proof (rule erlang_b_loop_float_next [where c = 1 and a = "Fin L" and blk = "Fin (L / (1 + L))"])
    show "int_to_float 1 = Inr 1" by (rule i)
    show "fdiv (Fin L) (Fin 1) = Inr (Fin L)" using L by (simp add: fl_def)
    show "fmul (Fin L) (Fin 1) = Fin L" using L by (simp add: fl_def)
    show "fadd (Fin 1) (Fin L) = Fin (1 + L)" using L by (simp add: fl_def)
    show "fdiv (Fin L) (Fin (1 + L)) = Inr (Fin (L / (1 + L)))"
    proof -
      have "0 < L / (1 + L)" using L(1) by (simp add: add_pos_pos)
      then have "fl (L / (1 + L)) = Fin (L / (1 + L))"
        using L1 bound_pos by (intro fl_fin) linarith+
      moreover have "1 + L \<noteq> 0" using L(1) by linarith
      ultimately show ?thesis by simp
    qed
    show "\<not> flt (Fin (L / (1 + L))) (Fin (1 / 2))"
      using L(1) by (simp add: L_def divide_less_eq)
    show "(2::int) = 1 + 1" by simp
  qed
  have s2: "erlang_b_loop_float L (1 / 2) 2 (Fin L) (Fin (1 + L))
            = erlang_b_loop_float L (1 / 2) 3 PInf PInf"
  proof (rule erlang_b_loop_float_next [where c = 2 and a = "Fin (L / 2)" and blk = NaN])
    show "int_to_float 2 = Inr 2" by (rule i)
    show "fdiv (Fin L) (Fin 2) = Inr (Fin (L / 2))" using L by (simp add: fl_def)
    show "fmul (Fin (L / 2)) (Fin L) = PInf" using L(4) by (simp add: fl_def)
    show "fadd (Fin (1 + L)) PInf = PInf" by simp
    show "fdiv PInf PInf = Inr NaN" by simp
    show "\<not> flt NaN (Fin (1 / 2))" by simp
    show "(3::int) = 2 + 1" by simp
  qed
  have s3: "erlang_b_loop_float L (1 / 2) 3 PInf PInf = Some (Inl OverflowError)"
    using L(1,2) by (rule saturated_loop_never_returns) simp
  have "calculate_erlang_b_float L (1 / 2) = Some (Inl OverflowError)"
    using L(1) by (simp add: calculate_erlang_b_float_def s1 s2 s3 not_less)
  then show ?thesis by (simp only: L_def)
qed










end
